theory Spec2Isabelle
  imports Main "HOL-Library.Sublist"
begin

section \<open>Strings\<close>

text \<open>
  The program runs under Python 2, where the XML library returns an attribute value of
  ASCII characters only as a byte string (\<open>str\<close>) and any other value as a
  \<open>unicode\<close> string. A unicode string is held here as its UTF-8 bytes: the
  expressions and separators of the program name ASCII characters only, and in UTF-8
  these stand for themselves and occur nowhere inside the encoding of another character.
\<close>

datatype pystr = Str string | Unicode string

fun chars :: "pystr \<Rightarrow> string" where
  "chars (Str s) = s"
| "chars (Unicode u) = u"

fun is_unicode :: "pystr \<Rightarrow> bool" where
  "is_unicode (Str s) = False"
| "is_unicode (Unicode u) = True"

text \<open>A string of the same kind as \<open>x\<close>, as a slice, a split or a match of \<open>x\<close> is.\<close>

fun same_kind :: "pystr \<Rightarrow> string \<Rightarrow> pystr" where
  "same_kind (Str _) t = Str t"
| "same_kind (Unicode _) t = Unicode t"

text \<open>
  On a byte string, uppercasing maps the ASCII letters \<open>a\<close>..\<open>z\<close> (codes 97..122)
  to \<open>A\<close>..\<open>Z\<close> and leaves every other byte alone.
\<close>

definition upper_char :: "char \<Rightarrow> char" where
  "upper_char c =
     (let n = (of_char c :: nat) in if 97 \<le> n \<and> n \<le> 122 then char_of (n - 32) else c)"

definition str_upper :: "string \<Rightarrow> string" where
  "str_upper s = map upper_char s"

text \<open>
  The method call \<open>x.upper()\<close> works on both kinds. On a unicode string it follows the
  interpreter's Unicode tables, which are not part of the program: \<open>unicode_upper\<close>
  is a parameter.
\<close>

fun py_upper :: "(string \<Rightarrow> string) \<Rightarrow> pystr \<Rightarrow> pystr" where
  "py_upper unicode_upper (Str s) = Str (str_upper s)"
| "py_upper unicode_upper (Unicode u) = Unicode (unicode_upper u)"

text \<open>
  \<open>s.replace(old, new)\<close>: every occurrence of \<open>old\<close>, found from the left and
  without overlap, becomes \<open>new\<close>. With an empty \<open>old\<close>, \<open>new\<close> is put before
  every character and at the end.
\<close>

fun interleave :: "string \<Rightarrow> string \<Rightarrow> string" where
  "interleave new [] = new"
| "interleave new (c # cs) = new @ c # interleave new cs"

function replace_scan :: "string \<Rightarrow> string \<Rightarrow> string \<Rightarrow> string" where
  "replace_scan old new [] = []"
| "replace_scan old new (c # cs) =
     (if old \<noteq> [] \<and> prefix old (c # cs)
      then new @ replace_scan old new (drop (length old) (c # cs))
      else c # replace_scan old new cs)"
  by pat_completeness auto
termination
  by (relation "measure (\<lambda>(old, new, s). length s)") auto

definition str_replace :: "string \<Rightarrow> string \<Rightarrow> string \<Rightarrow> string" where
  "str_replace s old new = (if old = [] then interleave new s else replace_scan old new s)"

section \<open>The regular expressions\<close>

text \<open>
  \<open>PROBLEMCHARS = [=\+/&<>;\'"\?%#$@\,\. \t\r\n]\<close>: a class of twenty characters;
  \<open>search\<close> succeeds when the key holds one of them anywhere.
\<close>

definition PROBLEMCHARS :: "char list" where
  "PROBLEMCHARS =
     ''=+/&<>;'' @ [CHR 0x27, CHR 0x22] @ ''?%#$@,. '' @ [CHR 0x09, CHR 0x0D, CHR 0x0A]"

definition PROBLEMCHARS_search :: "string \<Rightarrow> bool" where
  "PROBLEMCHARS_search k = list_ex (\<lambda>c. c \<in> set PROBLEMCHARS) k"

text \<open>
  \<open>street_type_re = \b\S+\.?$\<close>. \<open>\s\<close> is space, tab, line feed, vertical tab,
  form feed and carriage return; \<open>\w\<close> is a letter, a digit or the underscore.
\<close>

definition is_space :: "char \<Rightarrow> bool" where
  "is_space c = (c \<in> set [CHR '' '', CHR 0x09, CHR 0x0A, CHR 0x0B, CHR 0x0C, CHR 0x0D])"

definition is_word :: "char \<Rightarrow> bool" where
  "is_word c =
     (let n = (of_char c :: nat) in
        (48 \<le> n \<and> n \<le> 57) \<or> (65 \<le> n \<and> n \<le> 90) \<or> (97 \<le> n \<and> n \<le> 122) \<or> n = 95)"

text \<open>\<open>$\<close>: the end of the string, or just before a line feed that ends the string.\<close>

definition dollar :: "string \<Rightarrow> bool" where
  "dollar r = (r = [] \<or> r = [CHR 0x0A])"

text \<open>
  \<open>\b\<close> between the previous character (none at the start) and the next one (none at
  the end): exactly one of the two is a word character.
\<close>

definition word_boundary :: "char option \<Rightarrow> string \<Rightarrow> bool" where
  "word_boundary prev rest =
     ((case prev of None \<Rightarrow> False | Some p \<Rightarrow> is_word p)
        \<noteq> (case rest of [] \<Rightarrow> False | c # _ \<Rightarrow> is_word c))"

text \<open>
  \<open>\S+\.?$\<close> at the head of \<open>rest\<close>, as the backtracking matcher runs it: \<open>\S+\<close>
  first takes the longest run of non-space characters and gives one back at a time; for
  each length \<open>\.?\<close> first tries to take a dot, then to take nothing; \<open>$\<close> decides.
\<close>

fun try_lengths :: "nat \<Rightarrow> string \<Rightarrow> string option" where
  "try_lengths 0 rest = None"
| "try_lengths (Suc n) rest =
     (let after = drop (Suc n) rest in
        if after \<noteq> [] \<and> hd after = CHR ''.'' \<and> dollar (tl after)
          then Some (take (Suc (Suc n)) rest)
        else if dollar after then Some (take (Suc n) rest)
        else try_lengths n rest)"

definition match_here :: "string \<Rightarrow> string option" where
  "match_here rest = try_lengths (length (takeWhile (\<lambda>c. \<not> is_space c) rest)) rest"

text \<open>\<open>search\<close> tries the start positions from the left; the first match wins.\<close>

fun search_from :: "char option \<Rightarrow> string \<Rightarrow> string option" where
  "search_from prev [] = None"
| "search_from prev (c # cs) =
     (if word_boundary prev (c # cs) \<and> match_here (c # cs) \<noteq> None
      then match_here (c # cs)
      else search_from (Some c) cs)"

definition street_type_re_search :: "string \<Rightarrow> string option" where
  "street_type_re_search s = search_from None s"

section \<open>Cross-reference tables\<close>

text \<open>
  The street table has the columns \<open>FullName\<close>, \<open>CommonName\<close>, \<open>USPSName\<close>; the city
  table has \<open>OriginalName\<close>, \<open>NewName\<close>. Both are read from files at start-up, so they
  are parameters here.
\<close>

record street_row =
  FullName :: string
  CommonName :: string
  USPSName :: string

record city_row =
  OriginalName :: string
  NewName :: string

datatype error = KeyError string | IndexError | UnboundLocalError string | TypeError

text \<open>
  The call \<open>str.upper(x)\<close> through the type: it takes a byte string only and raises
  \<open>TypeError\<close> for a unicode string.
\<close>

fun str_dot_upper :: "pystr \<Rightarrow> error + pystr" where
  "str_dot_upper (Str s) = Inr (Str (str_upper s))"
| "str_dot_upper (Unicode u) = Inl TypeError"

text \<open>\<open>.iloc[0]\<close> of a selection: its first row, \<open>IndexError\<close> when it is empty.\<close>

definition iloc0 :: "'a list \<Rightarrow> error + 'a" where
  "iloc0 xs = (case xs of [] \<Rightarrow> Inl IndexError | x # _ \<Rightarrow> Inr x)"

text \<open>
  The match of a unicode name is a unicode string, and \<open>name.replace\<close> gives a string
  of the kind of \<open>name\<close>. The \<open>elif\<close> calls \<open>str.upper(street_type)\<close> a second
  time, with the result the first call had.
\<close>

definition update_name :: "pystr \<Rightarrow> street_row list \<Rightarrow> error + pystr" where
  "update_name name CR =
     (case street_type_re_search (chars name) of
        Some street_type \<Rightarrow>
          (case str_dot_upper (same_kind name street_type) of
             Inl e \<Rightarrow> Inl e
           | Inr street_type_upper \<Rightarrow>
               if chars street_type_upper \<in> set (map CommonName CR) then
                 (case iloc0 (map FullName
                         (filter (\<lambda>r. CommonName r = chars street_type_upper) CR)) of
                    Inl e \<Rightarrow> Inl e
                  | Inr new_value_cn \<Rightarrow>
                      str_dot_upper
                        (same_kind name
                           (str_replace (chars name) (chars street_type_upper) new_value_cn)))
               else if chars street_type_upper \<in> set (map USPSName CR) then
                 (case iloc0 (map FullName
                         (filter (\<lambda>r. USPSName r = chars street_type_upper) CR)) of
                    Inl e \<Rightarrow> Inl e
                  | Inr new_value_un \<Rightarrow>
                      str_dot_upper
                        (same_kind name
                           (str_replace (chars name) (chars street_type_upper) new_value_un)))
               else str_dot_upper name)
      | None \<Rightarrow> str_dot_upper name)"

text \<open>
  On a hit \<open>name.replace(name, new_city_name)\<close> gives a string of the kind of
  \<open>name\<close>; on a miss the name itself is returned.
\<close>

definition update_city_name :: "pystr \<Rightarrow> city_row list \<Rightarrow> error + pystr" where
  "update_city_name name CR =
     (case str_dot_upper name of
        Inl e \<Rightarrow> Inl e
      | Inr name_upper \<Rightarrow>
          if chars name_upper \<in> set (map OriginalName CR) then
            (case iloc0 (map NewName (filter (\<lambda>r. OriginalName r = chars name) CR)) of
               Inl e \<Rightarrow> Inl e
             | Inr new_city_name \<Rightarrow>
                 Inr (same_kind name (str_replace (chars name) (chars name) new_city_name)))
          else Inr name)"

section \<open>Secondary tags\<close>

record key_value_type =
  kvt_key :: pystr
  kvt_value :: pystr
  kvt_type :: pystr

text \<open>\<open>key_name.split(':', 1)\<close> for a key that holds a colon.\<close>

definition split_colon :: "string \<Rightarrow> string \<times> string" where
  "split_colon k =
     (takeWhile (\<lambda>c. c \<noteq> CHR '':'') k, drop 1 (dropWhile (\<lambda>c. c \<noteq> CHR '':'') k))"

text \<open>
  \<open>type_name\<close> is assigned only under \<open>if not PROBLEMCHARS.search(key_name)\<close>; on the
  other path the \<open>return\<close> reads an unassigned local and raises. The two parts of a
  split key are of the kind of the key; the default type is the byte string
  \<open>regular\<close>. A comparison with \<open>"street"\<close> or \<open>"city"\<close> holds for either kind
  with these characters.
\<close>

definition handle_tags ::
  "(string \<Rightarrow> string) \<Rightarrow> pystr \<Rightarrow> pystr \<Rightarrow> street_row list \<Rightarrow> city_row list
     \<Rightarrow> error + key_value_type" where
  "handle_tags unicode_upper key_name value_name Cross_Reference Cross_Reference_Cities =
     (let value_name = py_upper unicode_upper value_name in
        if \<not> PROBLEMCHARS_search (chars key_name) then
          if CHR '':'' \<in> set (chars key_name) then
            (let key_split = split_colon (chars key_name);
                 type_name = same_kind key_name (snd key_split);
                 key_name = same_kind key_name (fst key_split) in
               if chars type_name = ''street'' then
                 (case update_name value_name Cross_Reference of
                    Inl e \<Rightarrow> Inl e
                  | Inr v \<Rightarrow> Inr \<lparr>kvt_key = key_name, kvt_value = v, kvt_type = type_name\<rparr>)
               else if chars type_name = ''city'' then
                 (case update_city_name value_name Cross_Reference_Cities of
                    Inl e \<Rightarrow> Inl e
                  | Inr v \<Rightarrow> Inr \<lparr>kvt_key = key_name, kvt_value = v, kvt_type = type_name\<rparr>)
               else Inr \<lparr>kvt_key = key_name, kvt_value = value_name, kvt_type = type_name\<rparr>)
          else Inr \<lparr>kvt_key = key_name, kvt_value = value_name, kvt_type = Str ''regular''\<rparr>
        else Inl (UnboundLocalError ''type_name''))"

section \<open>Elements\<close>

text \<open>
  An XML element as the tree library gives it: its tag, its attribute dictionary and its
  child elements in document order.
\<close>

datatype element =
  Element (tag: string) (attrib: "string \<rightharpoonup> pystr") (children: "element list")

text \<open>
  \<open>element.iter(t)\<close>: the element itself and everything below it, in document order,
  kept when its tag is \<open>t\<close>.
\<close>

fun iter :: "element \<Rightarrow> string \<Rightarrow> element list" where
  "iter (Element tg at cs) t =
     (if tg = t then [Element tg at cs] else []) @ concat (map (\<lambda>c. iter c t) cs)"

definition NODE_FIELDS :: "string list" where
  "NODE_FIELDS = [''id'', ''lat'', ''lon'', ''user'', ''uid'', ''version'', ''changeset'', ''timestamp'']"

definition WAY_FIELDS :: "string list" where
  "WAY_FIELDS = [''id'', ''user'', ''uid'', ''version'', ''changeset'', ''timestamp'']"

record tag_record =
  tag_id :: pystr
  tag_key :: pystr
  tag_value :: pystr
  tag_type :: pystr

record way_node =
  wn_id :: pystr
  wn_node_id :: pystr
  wn_position :: int

datatype shaped =
  NodeOut (out_node: "string \<rightharpoonup> pystr") (out_node_tags: "tag_record list")
| WayOut (out_way: "string \<rightharpoonup> pystr") (out_way_nodes: "way_node list")
    (out_way_tags: "tag_record list")

text \<open>
  The loop over the field list: the state is the attribute dictionary built so far and
  the captured id (\<open>nodeid\<close> or \<open>wayid\<close>). \<open>element.attrib[field]\<close> raises
  \<open>KeyError\<close> when the attribute is absent.
\<close>

fun extract_fields ::
  "(string \<Rightarrow> string) \<Rightarrow> string list \<Rightarrow> element \<Rightarrow> (string \<rightharpoonup> pystr) \<times> pystr
     \<Rightarrow> error + (string \<rightharpoonup> pystr) \<times> pystr" where
  "extract_fields unicode_upper [] element st = Inr st"
| "extract_fields unicode_upper (field # fs) element (attribs, elid) =
     (case attrib element field of
        None \<Rightarrow> Inl (KeyError field)
      | Some v \<Rightarrow>
          extract_fields unicode_upper fs element
            (attribs(field \<mapsto> py_upper unicode_upper v), if field = ''id'' then v else elid))"

text \<open>
  The loop over the \<open>tag\<close> elements. The working dictionary \<open>tag_values\<close> has all
  four entries overwritten before each copy, so every pass appends a fresh record.
\<close>

fun shape_tags ::
  "(string \<Rightarrow> string) \<Rightarrow> pystr \<Rightarrow> element list \<Rightarrow> street_row list \<Rightarrow> city_row list
     \<Rightarrow> tag_record list \<Rightarrow> error + tag_record list" where
  "shape_tags unicode_upper elid [] CR CRC tags = Inr tags"
| "shape_tags unicode_upper elid (el # els) CR CRC tags =
     (case attrib el ''k'' of
        None \<Rightarrow> Inl (KeyError ''k'')
      | Some k \<Rightarrow>
          (case attrib el ''v'' of
             None \<Rightarrow> Inl (KeyError ''v'')
           | Some v \<Rightarrow>
               (case handle_tags unicode_upper k v CR CRC of
                  Inl e \<Rightarrow> Inl e
                | Inr kvt \<Rightarrow>
                    shape_tags unicode_upper elid els CR CRC
                      (tags @ [\<lparr>tag_id = elid, tag_key = kvt_key kvt,
                                tag_value = kvt_value kvt, tag_type = kvt_type kvt\<rparr>]))))"

text \<open>The loop over the \<open>nd\<close> elements, with the running \<open>index\<close>.\<close>

fun shape_nds ::
  "(string \<Rightarrow> string) \<Rightarrow> pystr \<Rightarrow> element list \<Rightarrow> int \<Rightarrow> way_node list
     \<Rightarrow> error + way_node list" where
  "shape_nds unicode_upper wayid [] index nodes = Inr nodes"
| "shape_nds unicode_upper wayid (el # els) index nodes =
     (case attrib el ''ref'' of
        None \<Rightarrow> Inl (KeyError ''ref'')
      | Some r \<Rightarrow>
          shape_nds unicode_upper wayid els (index + 1)
            (nodes @ [\<lparr>wn_id = wayid, wn_node_id = py_upper unicode_upper r,
                       wn_position = index\<rparr>]))"

text \<open>
  \<open>for element in element.iter('tag')\<close> rebinds \<open>element\<close>: after the loop the name
  holds the last \<open>tag\<close> element met, or the original element when there was none, and
  \<open>element.iter('nd')\<close> starts from there. Any other tag falls through and returns
  \<open>None\<close>.
\<close>

definition shape_element ::
  "(string \<Rightarrow> string) \<Rightarrow> element \<Rightarrow> street_row list \<Rightarrow> city_row list
     \<Rightarrow> error + shaped option" where
  "shape_element unicode_upper element CR CRC =
     (if tag element = ''node'' then
        (case extract_fields unicode_upper NODE_FIELDS element (Map.empty, Str []) of
           Inl e \<Rightarrow> Inl e
         | Inr (node_attribs, nodeid) \<Rightarrow>
             (case shape_tags unicode_upper nodeid (iter element ''tag'') CR CRC [] of
                Inl e \<Rightarrow> Inl e
              | Inr tags \<Rightarrow> Inr (Some (NodeOut node_attribs tags))))
      else if tag element = ''way'' then
        (case extract_fields unicode_upper WAY_FIELDS element (Map.empty, Str []) of
           Inl e \<Rightarrow> Inl e
         | Inr (way_attribs, wayid) \<Rightarrow>
             (let tag_elements = iter element ''tag'' in
                case shape_tags unicode_upper wayid tag_elements CR CRC [] of
                  Inl e \<Rightarrow> Inl e
                | Inr tags \<Rightarrow>
                    (let element = (if tag_elements = [] then element else last tag_elements) in
                       case shape_nds unicode_upper wayid (iter element ''nd'') 0 [] of
                         Inl e \<Rightarrow> Inl e
                       | Inr way_nodes \<Rightarrow> Inr (Some (WayOut way_attribs way_nodes tags)))))
      else Inr None)"

section \<open>Notions used to state the properties\<close>

text \<open>
  The trailing whitespace-delimited token of a value, in the words of the specification:
  the longest suffix of the value without a whitespace character.
\<close>

definition spec_trailing_token :: "string \<Rightarrow> string" where
  "spec_trailing_token s = rev (takeWhile (\<lambda>c. \<not> is_space c) (rev s))"

text \<open>\<open>sep.join(pieces)\<close>: the pieces with \<open>sep\<close> between neighbours.\<close>

fun str_join :: "string \<Rightarrow> string list \<Rightarrow> string" where
  "str_join sep [] = []"
| "str_join sep [p] = p"
| "str_join sep (p # q # ps) = p @ sep @ str_join sep (q # ps)"

text \<open>A lowercase ASCII letter, and a byte string that holds none.\<close>

definition is_lower :: "char \<Rightarrow> bool" where
  "is_lower c = (let n = (of_char c :: nat) in 97 \<le> n \<and> n \<le> 122)"

fun lower_free :: "pystr \<Rightarrow> bool" where
  "lower_free (Str s) = list_all (\<lambda>c. \<not> is_lower c) s"
| "lower_free (Unicode u) = False"

section \<open>Uppercasing\<close>

lemma upper_char_idem: "upper_char (upper_char c) = upper_char c"
  by (auto simp: upper_char_def Let_def)

lemma str_upper_idem: "str_upper (str_upper s) = str_upper s"
  by (simp add: str_upper_def upper_char_idem)

lemma upper_char_not_lower: "\<not> is_lower (upper_char c)"
  by (auto simp: upper_char_def is_lower_def Let_def)

lemma str_upper_lower_free: "list_all (\<lambda>c. \<not> is_lower c) (str_upper s)"
  by (simp add: str_upper_def list_all_iff upper_char_not_lower)

lemma str_upper_fixed: "list_all (\<lambda>c. \<not> is_lower c) s \<Longrightarrow> str_upper s = s"
  by (induction s) (auto simp: str_upper_def upper_char_def is_lower_def Let_def)

lemma py_upper_fixed: "lower_free v \<Longrightarrow> py_upper uu v = v"
  by (cases v) (auto simp: str_upper_fixed)

lemma py_upper_idem:
  "is_unicode v \<longrightarrow> uu (uu (chars v)) = uu (chars v) \<Longrightarrow> py_upper uu (py_upper uu v) = py_upper uu v"
  by (cases v) (auto simp: str_upper_idem)

section \<open>Splitting a namespaced key\<close>

text \<open>
  C1. A key without a disallowed character that holds a colon is split at the first colon
  only, and the record should get the part before it as its type and the whole rest as
  its key: \<open>addr:street:name\<close> should give type \<open>addr\<close> and key \<open>street:name\<close>.
  The function splits at the first colon only, but assigns the two parts the other way
  round: the part before the colon becomes the key and the rest becomes the type.
\<close>

theorem handle_tags_addr_street_name:
  "handle_tags uu (Str ''addr:street:name'') (Str ''Lincoln'') CR CRC =
     Inr \<lparr>kvt_key = Str ''addr'', kvt_value = Str ''LINCOLN'', kvt_type = Str ''street:name''\<rparr>"
  by code_simp

section \<open>Keys with a disallowed character\<close>

text \<open>
  C2. A tag whose key holds a disallowed character should be dropped without a record
  and without an error, the rest of the element being shaped as usual. Here the key
  \<open>opening hours\<close> holds a space, and shaping the element ends in the error raised by
  reading the unassigned \<open>type_name\<close>.
\<close>

theorem shape_element_problem_key_raises:
  "shape_element uu
     (Element ''node''
        [''id'' \<mapsto> Str ''757860928'', ''lat'' \<mapsto> Str ''41.9747374'',
         ''lon'' \<mapsto> Str ''-87.6920102'', ''user'' \<mapsto> Str ''uboot'', ''uid'' \<mapsto> Str ''26299'',
         ''version'' \<mapsto> Str ''2'', ''changeset'' \<mapsto> Str ''5288876'',
         ''timestamp'' \<mapsto> Str ''2010-07-22T16:16:51Z'']
        [Element ''tag'' [''k'' \<mapsto> Str ''opening hours'', ''v'' \<mapsto> Str ''24/7''] []])
     CR CRC = Inl (UnboundLocalError ''type_name'')"
  by (simp add: shape_element_def NODE_FIELDS_def handle_tags_def PROBLEMCHARS_search_def
      PROBLEMCHARS_def)

section \<open>Node references of a way\<close>

text \<open>
  C4. A way should give one node reference record per \<open>nd\<close> child, in document order,
  with positions 0, 1, ..., n-1, repeated references kept. For a way with the references
  10, 20, 10 and no \<open>tag\<close> child this is what comes out; with one \<open>tag\<close> child added,
  the loop over \<open>nd\<close> starts from that \<open>tag\<close> element and the list comes out empty.
\<close>

theorem shape_element_way_with_tag_loses_node_refs:
  "map_sum id (map_option out_way_nodes)
     (shape_element uu
        (Element ''way''
           [''id'' \<mapsto> Str ''209809850'', ''user'' \<mapsto> Str ''chicago-buildings'',
            ''uid'' \<mapsto> Str ''674454'', ''version'' \<mapsto> Str ''1'',
            ''changeset'' \<mapsto> Str ''15353317'', ''timestamp'' \<mapsto> Str ''2013-03-13T15:58:04Z'']
           [Element ''nd'' [''ref'' \<mapsto> Str ''10''] [], Element ''nd'' [''ref'' \<mapsto> Str ''20''] [],
            Element ''nd'' [''ref'' \<mapsto> Str ''10''] [],
            Element ''tag'' [''k'' \<mapsto> Str ''building'', ''v'' \<mapsto> Str ''yes''] []])
        CR CRC) = Inr (Some [])
   \<and> map_sum id (map_option out_way_nodes)
     (shape_element uu
        (Element ''way''
           [''id'' \<mapsto> Str ''209809850'', ''user'' \<mapsto> Str ''chicago-buildings'',
            ''uid'' \<mapsto> Str ''674454'', ''version'' \<mapsto> Str ''1'',
            ''changeset'' \<mapsto> Str ''15353317'', ''timestamp'' \<mapsto> Str ''2013-03-13T15:58:04Z'']
           [Element ''nd'' [''ref'' \<mapsto> Str ''10''] [], Element ''nd'' [''ref'' \<mapsto> Str ''20''] [],
            Element ''nd'' [''ref'' \<mapsto> Str ''10''] []])
        CR CRC) =
      Inr (Some [\<lparr>wn_id = Str ''209809850'', wn_node_id = Str ''10'', wn_position = 0\<rparr>,
                 \<lparr>wn_id = Str ''209809850'', wn_node_id = Str ''20'', wn_position = 1\<rparr>,
                 \<lparr>wn_id = Str ''209809850'', wn_node_id = Str ''10'', wn_position = 2\<rparr>])"
  by code_simp

section \<open>Regular keys\<close>

text \<open>
  C7. For a key without a colon and without a disallowed character the record has type
  \<open>regular\<close> and the uppercased value, and normalising that value again under the
  same key gives the same record: the normalisation is idempotent. This holds for every
  byte string; for a unicode string it holds as far as uppercasing by the interpreter's
  tables is idempotent.
\<close>

theorem handle_tags_regular_idempotent:
  assumes "\<not> PROBLEMCHARS_search (chars k)" and "CHR '':'' \<notin> set (chars k)"
    and "is_unicode v \<longrightarrow> uu (uu (chars v)) = uu (chars v)"
  shows "\<exists>r. handle_tags uu k v CR CRC = Inr r \<and> kvt_type r = Str ''regular''
           \<and> kvt_value r = py_upper uu v
           \<and> handle_tags uu k (kvt_value r) CR CRC = Inr r"
  using assms(1,2) py_upper_idem [OF assms(3)] by (simp add: handle_tags_def)

theorem handle_tags_regular_idempotent_witness:
  "(\<exists>r. handle_tags str_upper (Str ''amenity'') (Str ''fast_food'') [] [] = Inr r
         \<and> kvt_type r = Str ''regular'' \<and> kvt_value r = Str ''FAST_FOOD''
         \<and> handle_tags str_upper (Str ''amenity'') (kvt_value r) [] [] = Inr r)
   \<and> (\<exists>r. handle_tags str_upper (Str ''name'') (Unicode (''shelly'' @ [CHR 0xE2, CHR 0x80, CHR 0x99] @ ''s'')) [] []
           = Inr r
         \<and> kvt_type r = Str ''regular''
         \<and> kvt_value r = Unicode (''SHELLY'' @ [CHR 0xE2, CHR 0x80, CHR 0x99] @ ''S'')
         \<and> handle_tags str_upper (Str ''name'') (kvt_value r) [] [] = Inr r)"
proof -
  have h1: "\<not> PROBLEMCHARS_search (chars (Str ''amenity''))" by code_simp
  have h2: "CHR '':'' \<notin> set (chars (Str ''amenity''))" by simp
  have h3: "is_unicode (Str ''fast_food'')
      \<longrightarrow> str_upper (str_upper (chars (Str ''fast_food''))) = str_upper (chars (Str ''fast_food''))"
    by simp
  have u: "py_upper str_upper (Str ''fast_food'') = Str ''FAST_FOOD''" by code_simp
  have g1: "\<not> PROBLEMCHARS_search (chars (Str ''name''))" by code_simp
  have g2: "CHR '':'' \<notin> set (chars (Str ''name''))" by simp
  have g3: "is_unicode (Unicode (''shelly'' @ [CHR 0xE2, CHR 0x80, CHR 0x99] @ ''s''))
      \<longrightarrow> str_upper (str_upper (chars (Unicode (''shelly'' @ [CHR 0xE2, CHR 0x80, CHR 0x99] @ ''s''))))
          = str_upper (chars (Unicode (''shelly'' @ [CHR 0xE2, CHR 0x80, CHR 0x99] @ ''s'')))"
    by (simp add: str_upper_idem)
  have w: "py_upper str_upper (Unicode (''shelly'' @ [CHR 0xE2, CHR 0x80, CHR 0x99] @ ''s''))
             = Unicode (''SHELLY'' @ [CHR 0xE2, CHR 0x80, CHR 0x99] @ ''S'')" by code_simp
  from handle_tags_regular_idempotent [OF h1 h2 h3, of "[]" "[]"] u
  have a: "\<exists>r. handle_tags str_upper (Str ''amenity'') (Str ''fast_food'') [] [] = Inr r
         \<and> kvt_type r = Str ''regular'' \<and> kvt_value r = Str ''FAST_FOOD''
         \<and> handle_tags str_upper (Str ''amenity'') (kvt_value r) [] [] = Inr r" by simp
  from handle_tags_regular_idempotent [OF g1 g2 g3, of "[]" "[]"] w
  have b: "\<exists>r. handle_tags str_upper (Str ''name'') (Unicode (''shelly'' @ [CHR 0xE2, CHR 0x80, CHR 0x99] @ ''s'')) [] []
           = Inr r
         \<and> kvt_type r = Str ''regular''
         \<and> kvt_value r = Unicode (''SHELLY'' @ [CHR 0xE2, CHR 0x80, CHR 0x99] @ ''S'')
         \<and> handle_tags str_upper (Str ''name'') (kvt_value r) [] [] = Inr r" by simp
  from a b show ?thesis by blast
qed

section \<open>Missing attributes\<close>

lemma extract_fields_missing:
  "list_ex (\<lambda>f. attrib e f = None) fs \<Longrightarrow>
     \<exists>f. f \<in> set fs \<and> attrib e f = None \<and> extract_fields uu fs e st = Inl (KeyError f)"
proof (induction fs arbitrary: st)
  case Nil
  then show ?case by simp
next
  case (Cons field fs)
  obtain m x where st: "st = (m, x)" by (cases st)
  show ?case
  proof (cases "attrib e field")
    case None
    then show ?thesis by (auto simp: st)
  next
    case (Some v)
    with Cons.prems have "list_ex (\<lambda>f. attrib e f = None) fs" by simp
    from Cons.IH [OF this] Some show ?thesis by (auto simp: st)
  qed
qed

text \<open>
  C3. A node or a way that lacks one of its required attributes (the eight of
  \<open>NODE_FIELDS\<close>, the six of \<open>WAY_FIELDS\<close>) is not shaped: reading the first
  absent attribute raises \<open>KeyError\<close>, and no record group is returned.
\<close>

theorem shape_element_missing_attribute:
  assumes "tag e = ''node'' \<and> required = NODE_FIELDS \<or> tag e = ''way'' \<and> required = WAY_FIELDS"
    and "list_ex (\<lambda>f. attrib e f = None) required"
  shows "\<exists>f. f \<in> set required \<and> attrib e f = None
           \<and> shape_element uu e CR CRC = Inl (KeyError f)"
proof -
  from extract_fields_missing [OF assms(2)]
  obtain f where f: "f \<in> set required" "attrib e f = None"
    "extract_fields uu required e (Map.empty, Str []) = Inl (KeyError f)" by blast
  from assms(1) f(3) have "shape_element uu e CR CRC = Inl (KeyError f)"
    by (auto simp: shape_element_def)
  with f show ?thesis by blast
qed

theorem shape_element_missing_attribute_witness:
  "shape_element str_upper
     (Element ''node''
        [''id'' \<mapsto> Str ''757860928'', ''lat'' \<mapsto> Str ''41.9747374'',
         ''lon'' \<mapsto> Str ''-87.6920102'', ''user'' \<mapsto> Str ''uboot'', ''version'' \<mapsto> Str ''2'',
         ''changeset'' \<mapsto> Str ''5288876'', ''timestamp'' \<mapsto> Str ''2010-07-22T16:16:51Z'']
        [Element ''tag'' [''k'' \<mapsto> Str ''amenity'', ''v'' \<mapsto> Str ''fast_food''] []])
     [] [] = Inl (KeyError ''uid'')
   \<and> shape_element str_upper
     (Element ''way''
        [''id'' \<mapsto> Str ''209809850'', ''user'' \<mapsto> Str ''chicago-buildings'',
         ''uid'' \<mapsto> Str ''674454'', ''version'' \<mapsto> Str ''1'', ''changeset'' \<mapsto> Str ''15353317'']
        [Element ''nd'' [''ref'' \<mapsto> Str ''10''] []])
     [] [] = Inl (KeyError ''timestamp'')"
proof -
  let ?n = "Element ''node''
        [''id'' \<mapsto> Str ''757860928'', ''lat'' \<mapsto> Str ''41.9747374'',
         ''lon'' \<mapsto> Str ''-87.6920102'', ''user'' \<mapsto> Str ''uboot'', ''version'' \<mapsto> Str ''2'',
         ''changeset'' \<mapsto> Str ''5288876'', ''timestamp'' \<mapsto> Str ''2010-07-22T16:16:51Z'']
        [Element ''tag'' [''k'' \<mapsto> Str ''amenity'', ''v'' \<mapsto> Str ''fast_food''] []]"
  let ?w = "Element ''way''
        [''id'' \<mapsto> Str ''209809850'', ''user'' \<mapsto> Str ''chicago-buildings'',
         ''uid'' \<mapsto> Str ''674454'', ''version'' \<mapsto> Str ''1'', ''changeset'' \<mapsto> Str ''15353317'']
        [Element ''nd'' [''ref'' \<mapsto> Str ''10''] []]"
  have n1: "tag ?n = ''node'' \<and> NODE_FIELDS = NODE_FIELDS \<or> tag ?n = ''way'' \<and> NODE_FIELDS = WAY_FIELDS"
    by simp
  have n2: "list_ex (\<lambda>f. attrib ?n f = None) NODE_FIELDS" by (simp add: NODE_FIELDS_def)
  have w1: "tag ?w = ''node'' \<and> WAY_FIELDS = NODE_FIELDS \<or> tag ?w = ''way'' \<and> WAY_FIELDS = WAY_FIELDS"
    by simp
  have w2: "list_ex (\<lambda>f. attrib ?w f = None) WAY_FIELDS" by (simp add: WAY_FIELDS_def)
  from shape_element_missing_attribute [OF n1 n2, of str_upper "[]" "[]"]
  obtain f where "f \<in> set NODE_FIELDS" "attrib ?n f = None"
    "shape_element str_upper ?n [] [] = Inl (KeyError f)" by blast
  then have a: "shape_element str_upper ?n [] [] = Inl (KeyError ''uid'')"
    by (auto simp: NODE_FIELDS_def)
  from shape_element_missing_attribute [OF w1 w2, of str_upper "[]" "[]"]
  obtain g where "g \<in> set WAY_FIELDS" "attrib ?w g = None"
    "shape_element str_upper ?w [] [] = Inl (KeyError g)" by blast
  then have b: "shape_element str_upper ?w [] [] = Inl (KeyError ''timestamp'')"
    by (auto simp: WAY_FIELDS_def)
  from a b show ?thesis by blast
qed

section \<open>City names\<close>

lemma split_colon_append:
  "CHR '':'' \<notin> set ns \<Longrightarrow> split_colon (ns @ CHR '':'' # rest) = (ns, rest)"
  by (induction ns) (auto simp: split_colon_def)

text \<open>
  For a byte string the lookup behaves as described: when the uppercased value is not in
  the \<open>OriginalName\<close> column, the record carries the uppercased value.
\<close>

lemma city_miss_byte_string:
  assumes "\<not> PROBLEMCHARS_search (chars k)" and "chars k = ns @ '':city''"
    and "CHR '':'' \<notin> set ns" and "str_upper s \<notin> set (map OriginalName CRC)"
  shows "handle_tags uu k (Str s) CR CRC =
         Inr \<lparr>kvt_key = same_kind k ns, kvt_value = Str (str_upper s),
              kvt_type = same_kind k ''city''\<rparr>"
proof -
  from assms(4) have u: "update_city_name (Str (str_upper s)) CRC = Inr (Str (str_upper s))"
    by (simp add: update_city_name_def str_upper_idem)
  from assms(3) have sp: "split_colon (chars k) = (ns, ''city'')"
    unfolding assms(2) using split_colon_append [of ns "''city''"] by simp
  have c: "CHR '':'' \<in> set (chars k)" unfolding assms(2) by simp
  from assms(1) sp c u show ?thesis by (cases k) (simp_all add: handle_tags_def)
qed

lemma update_city_name_unicode: "update_city_name (Unicode u) CRC = Inl TypeError"
  by (simp add: update_city_name_def)

text \<open>
  C6. For a tag of type \<open>city\<close> whose uppercased value is not in the
  \<open>OriginalName\<close> column, the record should carry the uppercased value, a miss being
  no error. For a value with a character outside ASCII, such as \<open>Zurich\<close> written with
  u-umlaut (the bytes C3 BC), the lookup starts with \<open>str.upper\<close> of a unicode
  string and raises \<open>TypeError\<close>, whatever the table holds.
\<close>

theorem handle_tags_city_unicode_raises:
  "handle_tags uu (Str ''addr:city'') (Unicode (''Z'' @ [CHR 0xC3, CHR 0xBC] @ ''rich'')) CR CRC
     = Inl TypeError"
  by (simp add: handle_tags_def PROBLEMCHARS_search_def PROBLEMCHARS_def split_colon_def
      update_city_name_def)

section \<open>The loops of the shaper\<close>

lemma extract_fields_Inr:
  "extract_fields uu fs e (m, x) = Inr (m', x') \<Longrightarrow>
     (\<forall>f. m' f = (if f \<in> set fs then map_option (py_upper uu) (attrib e f) else m f))
     \<and> (\<forall>f \<in> set fs. attrib e f \<noteq> None)
     \<and> (if ''id'' \<in> set fs then attrib e ''id'' = Some x' else x' = x)"
proof (induction fs arbitrary: m x)
  case Nil
  then show ?case by simp
next
  case (Cons field fs)
  from Cons.prems obtain v where v: "attrib e field = Some v"
    by (cases "attrib e field") auto
  with Cons.prems have
    "extract_fields uu fs e (m(field \<mapsto> py_upper uu v), if field = ''id'' then v else x)
       = Inr (m', x')"
    by simp
  from Cons.IH [OF this] v show ?case by auto
qed

lemma iter_tag: "el \<in> set (iter e t) \<Longrightarrow> tag el = t"
  by (induction e t rule: iter.induct) (auto split: if_splits)

lemma shape_tags_owner:
  "shape_tags uu i els CR CRC acc = Inr ts \<Longrightarrow> list_all (\<lambda>t. tag_id t = i) acc \<Longrightarrow>
     list_all (\<lambda>t. tag_id t = i) ts"
  by (induction els arbitrary: acc) (auto split: option.splits sum.splits)

lemma shape_nds_Inr:
  "shape_nds uu i els n acc = Inr ws \<Longrightarrow>
     ws = acc @ map (\<lambda>(k, el). \<lparr>wn_id = i, wn_node_id = py_upper uu (the (attrib el ''ref'')),
                                 wn_position = n + int k\<rparr>) (enumerate 0 els)
     \<and> (\<forall>el \<in> set els. attrib el ''ref'' \<noteq> None)"
proof (induction els arbitrary: n acc)
  case Nil
  then show ?case by simp
next
  case (Cons el els)
  from Cons.prems obtain r where r: "attrib el ''ref'' = Some r"
    by (cases "attrib el ''ref''") auto
  with Cons.prems have
    "shape_nds uu i els (n + 1)
       (acc @ [\<lparr>wn_id = i, wn_node_id = py_upper uu r, wn_position = n\<rparr>]) = Inr ws"
    by simp
  from Cons.IH [OF this] r show ?case
    by (auto simp: enumerate_Suc_eq map_prod_def split_def comp_def add.assoc intro!: map_cong)
qed

lemma shape_nds_refs:
  assumes "shape_nds uu i els 0 [] = Inr ws"
  shows "list_all2 (\<lambda>w el. \<exists>r. attrib el ''ref'' = Some r \<and> wn_id w = i
                          \<and> wn_node_id w = py_upper uu r) ws els"
proof -
  from shape_nds_Inr [OF assms] have
    ws: "ws = map (\<lambda>(k, el). \<lparr>wn_id = i, wn_node_id = py_upper uu (the (attrib el ''ref'')),
                                 wn_position = int k\<rparr>) (enumerate 0 els)"
    and refs: "\<forall>el \<in> set els. attrib el ''ref'' \<noteq> None" by simp_all
  show ?thesis
  proof (rule list_all2_all_nthI)
    show "length ws = length els" by (simp add: ws)
  next
    fix k assume "k < length ws"
    then have k: "k < length els" by (simp add: ws)
    with refs obtain r where r: "attrib (els ! k) ''ref'' = Some r" by (auto dest: nth_mem)
    from k have "ws ! k = \<lparr>wn_id = i, wn_node_id = py_upper uu (the (attrib (els ! k) ''ref'')),
                                 wn_position = int k\<rparr>"
      by (simp add: ws nth_enumerate_eq)
    with r show "\<exists>r. attrib (els ! k) ''ref'' = Some r \<and> wn_id (ws ! k) = i
                      \<and> wn_node_id (ws ! k) = py_upper uu r" by simp
  qed
qed

section \<open>Owner ids\<close>

text \<open>
  C8. Every tag record and every node reference record of a shaped element carries the
  element's \<open>id\<close> attribute (it is captured in the field loop, before the child loops
  rebind the element), so all of them share one owner id. Ids are decimal numbers; for
  every id that is a byte string without a lowercase letter this owner id is also the
  \<open>id\<close> field of the primary record.
\<close>

theorem shape_element_owner_id:
  assumes "shape_element uu e CR CRC = Inr (Some out)"
  shows "\<exists>i. attrib e ''id'' = Some i \<and>
           (case out of
              NodeOut p ts \<Rightarrow>
                list_all (\<lambda>t. tag_id t = i) ts \<and> (lower_free i \<longrightarrow> p ''id'' = Some i)
            | WayOut p wns ts \<Rightarrow>
                list_all (\<lambda>t. tag_id t = i) ts \<and> list_all (\<lambda>w. wn_id w = i) wns
                \<and> (lower_free i \<longrightarrow> p ''id'' = Some i))"
proof (cases "tag e = ''node''")
  case True
  with assms obtain p i ts where
    ex: "extract_fields uu NODE_FIELDS e (Map.empty, Str []) = Inr (p, i)"
    and st: "shape_tags uu i (iter e ''tag'') CR CRC [] = Inr ts"
    and out: "out = NodeOut p ts"
    by (auto simp: shape_element_def split: sum.splits prod.splits)
  from extract_fields_Inr [OF ex] have
    "attrib e ''id'' = Some i" "p ''id'' = Some (py_upper uu i)"
    by (auto simp: NODE_FIELDS_def)
  moreover from shape_tags_owner [OF st] have "list_all (\<lambda>t. tag_id t = i) ts" by simp
  ultimately show ?thesis by (simp add: out py_upper_fixed)
next
  case False
  with assms have w: "tag e = ''way''"
    by (auto simp: shape_element_def split: if_splits)
  with assms obtain p i ts nds wns where
    ex: "extract_fields uu WAY_FIELDS e (Map.empty, Str []) = Inr (p, i)"
    and st: "shape_tags uu i (iter e ''tag'') CR CRC [] = Inr ts"
    and sn: "shape_nds uu i nds 0 [] = Inr wns"
    and out: "out = WayOut p wns ts"
    by (auto simp: shape_element_def Let_def split: sum.splits prod.splits)
  from extract_fields_Inr [OF ex] have
    "attrib e ''id'' = Some i" "p ''id'' = Some (py_upper uu i)"
    by (auto simp: WAY_FIELDS_def)
  moreover from shape_tags_owner [OF st] have "list_all (\<lambda>t. tag_id t = i) ts" by simp
  moreover from shape_nds_Inr [OF sn] have "list_all (\<lambda>w. wn_id w = i) wns"
    by (auto simp: list_all_iff)
  ultimately show ?thesis by (simp add: out py_upper_fixed)
qed

theorem shape_element_owner_id_witness:
  "(\<exists>p t. shape_element str_upper
        (Element ''node''
           [''id'' \<mapsto> Str ''757860928'', ''lat'' \<mapsto> Str ''41.9747374'',
            ''lon'' \<mapsto> Str ''-87.6920102'', ''user'' \<mapsto> Str ''uboot'', ''uid'' \<mapsto> Str ''26299'',
            ''version'' \<mapsto> Str ''2'', ''changeset'' \<mapsto> Str ''5288876'',
            ''timestamp'' \<mapsto> Str ''2010-07-22T16:16:51Z'']
           [Element ''tag'' [''k'' \<mapsto> Str ''amenity'', ''v'' \<mapsto> Str ''fast_food''] []])
        [] [] = Inr (Some (NodeOut p [t]))
      \<and> p ''id'' = Some (Str ''757860928'') \<and> tag_id t = Str ''757860928'')
   \<and> (\<exists>q a b ts. shape_element str_upper
        (Element ''way''
           [''id'' \<mapsto> Str ''209809850'', ''user'' \<mapsto> Str ''chicago-buildings'',
            ''uid'' \<mapsto> Str ''674454'', ''version'' \<mapsto> Str ''1'',
            ''changeset'' \<mapsto> Str ''15353317'', ''timestamp'' \<mapsto> Str ''2013-03-13T15:58:04Z'']
           [Element ''nd'' [''ref'' \<mapsto> Str ''10''] [], Element ''nd'' [''ref'' \<mapsto> Str ''20''] []])
        [] [] = Inr (Some (WayOut q [a, b] ts))
      \<and> q ''id'' = Some (Str ''209809850'')
      \<and> wn_id a = Str ''209809850'' \<and> wn_id b = Str ''209809850'')"
proof -
  let ?n = "Element ''node''
           [''id'' \<mapsto> Str ''757860928'', ''lat'' \<mapsto> Str ''41.9747374'',
            ''lon'' \<mapsto> Str ''-87.6920102'', ''user'' \<mapsto> Str ''uboot'', ''uid'' \<mapsto> Str ''26299'',
            ''version'' \<mapsto> Str ''2'', ''changeset'' \<mapsto> Str ''5288876'',
            ''timestamp'' \<mapsto> Str ''2010-07-22T16:16:51Z'']
           [Element ''tag'' [''k'' \<mapsto> Str ''amenity'', ''v'' \<mapsto> Str ''fast_food''] []]"
  let ?w = "Element ''way''
           [''id'' \<mapsto> Str ''209809850'', ''user'' \<mapsto> Str ''chicago-buildings'',
            ''uid'' \<mapsto> Str ''674454'', ''version'' \<mapsto> Str ''1'',
            ''changeset'' \<mapsto> Str ''15353317'', ''timestamp'' \<mapsto> Str ''2013-03-13T15:58:04Z'']
           [Element ''nd'' [''ref'' \<mapsto> Str ''10''] [], Element ''nd'' [''ref'' \<mapsto> Str ''20''] []]"
  have "\<exists>p t. shape_element str_upper ?n [] [] = Inr (Some (NodeOut p [t]))"
    by (simp add: shape_element_def NODE_FIELDS_def handle_tags_def PROBLEMCHARS_search_def
        PROBLEMCHARS_def)
  then obtain p t where h: "shape_element str_upper ?n [] [] = Inr (Some (NodeOut p [t]))"
    by blast
  have "\<exists>q a b ts. shape_element str_upper ?w [] [] = Inr (Some (WayOut q [a, b] ts))"
    by (simp add: shape_element_def WAY_FIELDS_def)
  then obtain q a b ts where
    g: "shape_element str_upper ?w [] [] = Inr (Some (WayOut q [a, b] ts))" by blast
  have l1: "lower_free (Str ''757860928'')" by code_simp
  have l2: "lower_free (Str ''209809850'')" by code_simp
  from shape_element_owner_id [OF h] l1
  have n: "p ''id'' = Some (Str ''757860928'') \<and> tag_id t = Str ''757860928''" by auto
  from shape_element_owner_id [OF g] l2
  have w: "q ''id'' = Some (Str ''209809850'')
      \<and> wn_id a = Str ''209809850'' \<and> wn_id b = Str ''209809850''" by auto
  from h n g w show ?thesis by blast
qed

section \<open>Stored attribute values\<close>

lemma py_upper_byte_string: "is_unicode v \<or> lower_free (py_upper uu v)"
  by (cases v) (simp_all add: str_upper_lower_free)

lemma extract_fields_upper:
  assumes "extract_fields uu fs e (Map.empty, Str []) = Inr (p, i)"
  shows "dom p = set fs
     \<and> list_all (\<lambda>f. \<exists>v. attrib e f = Some v \<and> p f = Some (py_upper uu v)
                       \<and> (is_unicode v \<or> lower_free (py_upper uu v))) fs"
proof -
  from extract_fields_Inr [OF assms] have
    a: "\<forall>f. p f = (if f \<in> set fs then map_option (py_upper uu) (attrib e f) else None)"
    and b: "\<forall>f \<in> set fs. attrib e f \<noteq> None" by auto
  from a b have "dom p = set fs" by (auto simp: dom_def)
  moreover have
    "list_all (\<lambda>f. \<exists>v. attrib e f = Some v \<and> p f = Some (py_upper uu v)
                       \<and> (is_unicode v \<or> lower_free (py_upper uu v))) fs"
    unfolding list_all_iff
  proof
    fix f assume f: "f \<in> set fs"
    with b obtain v where v: "attrib e f = Some v" by auto
    with a f have "p f = Some (py_upper uu v)" by simp
    with v py_upper_byte_string [of v uu]
    show "\<exists>v. attrib e f = Some v \<and> p f = Some (py_upper uu v)
                       \<and> (is_unicode v \<or> lower_free (py_upper uu v))" by blast
  qed
  ultimately show ?thesis by blast
qed

text \<open>
  C9. Every attribute of the primary record, for a node and for a way, is the uppercased
  attribute of the element (the record has exactly the fields of the list), and the
  \<open>node_id\<close> of each node reference record is the uppercased \<open>ref\<close> of the \<open>nd\<close>
  element it was made from, in the order of the elements the loop went through.
  Uppercased means the result of \<open>upper()\<close>; for a byte string no lowercase letter is
  left in it.
\<close>

theorem shape_element_stores_uppercase:
  assumes "shape_element uu e CR CRC = Inr (Some out)"
  shows "case out of
           NodeOut p ts \<Rightarrow>
             tag e = ''node'' \<and> dom p = set NODE_FIELDS
             \<and> list_all (\<lambda>f. \<exists>v. attrib e f = Some v \<and> p f = Some (py_upper uu v)
                               \<and> (is_unicode v \<or> lower_free (py_upper uu v))) NODE_FIELDS
         | WayOut p wns ts \<Rightarrow>
             tag e = ''way'' \<and> dom p = set WAY_FIELDS
             \<and> list_all (\<lambda>f. \<exists>v. attrib e f = Some v \<and> p f = Some (py_upper uu v)
                               \<and> (is_unicode v \<or> lower_free (py_upper uu v))) WAY_FIELDS
             \<and> list_all2 (\<lambda>w el. \<exists>r. attrib el ''ref'' = Some r \<and> wn_node_id w = py_upper uu r
                                    \<and> (is_unicode r \<or> lower_free (py_upper uu r)))
                   wns
                   (iter (if iter e ''tag'' = [] then e else last (iter e ''tag'')) ''nd'')"
proof (cases "tag e = ''node''")
  case True
  with assms obtain p i ts where
    ex: "extract_fields uu NODE_FIELDS e (Map.empty, Str []) = Inr (p, i)"
    and out: "out = NodeOut p ts"
    by (auto simp: shape_element_def split: sum.splits prod.splits)
  from extract_fields_upper [OF ex] True show ?thesis by (simp add: out)
next
  case False
  with assms have w: "tag e = ''way''"
    by (auto simp: shape_element_def split: if_splits)
  let ?src = "iter (if iter e ''tag'' = [] then e else last (iter e ''tag'')) ''nd''"
  from w assms obtain p i ts wns where
    ex: "extract_fields uu WAY_FIELDS e (Map.empty, Str []) = Inr (p, i)"
    and sn: "shape_nds uu i ?src 0 [] = Inr wns"
    and out: "out = WayOut p wns ts"
    by (auto simp: shape_element_def Let_def split: sum.splits prod.splits if_splits)
  from shape_nds_refs [OF sn] have
    "list_all2 (\<lambda>w el. \<exists>r. attrib el ''ref'' = Some r \<and> wn_node_id w = py_upper uu r
                                    \<and> (is_unicode r \<or> lower_free (py_upper uu r))) wns ?src"
    by (rule list_all2_mono) (use py_upper_byte_string in blast)
  with extract_fields_upper [OF ex] w show ?thesis by (simp add: out)
qed

theorem shape_element_stores_uppercase_witness:
  "\<exists>p a b ts. shape_element str_upper
        (Element ''way''
           [''id'' \<mapsto> Str ''209809850'', ''user'' \<mapsto> Str ''chicago-buildings'',
            ''uid'' \<mapsto> Str ''674454'', ''version'' \<mapsto> Str ''1'',
            ''changeset'' \<mapsto> Str ''15353317'', ''timestamp'' \<mapsto> Str ''2013-03-13t15:58:04z'']
           [Element ''nd'' [''ref'' \<mapsto> Str ''10''] [], Element ''nd'' [''ref'' \<mapsto> Str ''n20''] []])
        [] [] = Inr (Some (WayOut p [a, b] ts))
      \<and> dom p = set WAY_FIELDS
      \<and> p ''user'' = Some (Str ''CHICAGO-BUILDINGS'')
      \<and> p ''timestamp'' = Some (Str ''2013-03-13T15:58:04Z'')
      \<and> wn_node_id a = Str ''10'' \<and> wn_node_id b = Str ''N20''"
proof -
  let ?w = "Element ''way''
           [''id'' \<mapsto> Str ''209809850'', ''user'' \<mapsto> Str ''chicago-buildings'',
            ''uid'' \<mapsto> Str ''674454'', ''version'' \<mapsto> Str ''1'',
            ''changeset'' \<mapsto> Str ''15353317'', ''timestamp'' \<mapsto> Str ''2013-03-13t15:58:04z'']
           [Element ''nd'' [''ref'' \<mapsto> Str ''10''] [], Element ''nd'' [''ref'' \<mapsto> Str ''n20''] []]"
  have "\<exists>p a b ts. shape_element str_upper ?w [] [] = Inr (Some (WayOut p [a, b] ts))"
    by (simp add: shape_element_def WAY_FIELDS_def)
  then obtain p a b ts where
    h: "shape_element str_upper ?w [] [] = Inr (Some (WayOut p [a, b] ts))" by blast
  have src: "iter (if iter ?w ''tag'' = [] then ?w else last (iter ?w ''tag'')) ''nd''
       = [Element ''nd'' [''ref'' \<mapsto> Str ''10''] [], Element ''nd'' [''ref'' \<mapsto> Str ''n20''] []]"
    by simp
  have u1: "py_upper str_upper (Str ''chicago-buildings'') = Str ''CHICAGO-BUILDINGS''"
    by code_simp
  have u2: "py_upper str_upper (Str ''2013-03-13t15:58:04z'') = Str ''2013-03-13T15:58:04Z''"
    by code_simp
  have u3: "py_upper str_upper (Str ''10'') = Str ''10''" by code_simp
  have u4: "py_upper str_upper (Str ''n20'') = Str ''N20''" by code_simp
  from shape_element_stores_uppercase [OF h] have
    d: "dom p = set WAY_FIELDS"
    and f: "list_all (\<lambda>f. \<exists>v. attrib ?w f = Some v \<and> p f = Some (py_upper str_upper v)
                               \<and> (is_unicode v \<or> lower_free (py_upper str_upper v))) WAY_FIELDS"
    and r: "list_all2 (\<lambda>w el. \<exists>r. attrib el ''ref'' = Some r \<and> wn_node_id w = py_upper str_upper r
                                    \<and> (is_unicode r \<or> lower_free (py_upper str_upper r)))
              [a, b]
              (iter (if iter ?w ''tag'' = [] then ?w else last (iter ?w ''tag'')) ''nd'')"
    by simp_all
  from f have "p ''user'' = Some (py_upper str_upper (Str ''chicago-buildings''))"
    "p ''timestamp'' = Some (py_upper str_upper (Str ''2013-03-13t15:58:04z''))"
    by (simp_all add: WAY_FIELDS_def)
  with u1 u2 have pu: "p ''user'' = Some (Str ''CHICAGO-BUILDINGS'')"
    "p ''timestamp'' = Some (Str ''2013-03-13T15:58:04Z'')" by simp_all
  from r have "wn_node_id a = py_upper str_upper (Str ''10'')"
    "wn_node_id b = py_upper str_upper (Str ''n20'')"
    unfolding src by simp_all
  with u3 u4 have nu: "wn_node_id a = Str ''10''" "wn_node_id b = Str ''N20''" by simp_all
  from h d pu nu show ?thesis by blast
qed

section \<open>The street type expression\<close>

lemma space_not_word: "is_space c \<Longrightarrow> \<not> is_word c"
  by (auto simp: is_space_def is_word_def)

lemma dot_not_space: "\<not> is_space (CHR ''.'')"
  by (simp add: is_space_def)

lemma try_lengths_none:
  assumes a: "\<forall>c\<in>set a. \<not> is_space c" and sp: "is_space sp" and b: "b \<noteq> []"
  shows "n \<le> length a \<Longrightarrow> try_lengths n (a @ sp # b) = None"
proof (induction n)
  case 0
  show ?case by simp
next
  case (Suc n)
  then have IH: "try_lengths n (a @ sp # b) = None" by simp
  from Suc.prems have d: "drop (Suc n) (a @ sp # b) = drop (Suc n) a @ sp # b" by simp
  show ?case
  proof (cases "drop (Suc n) a")
    case Nil
    with d have after: "drop (Suc n) (a @ sp # b) = sp # b" by simp
    from sp dot_not_space have "sp \<noteq> CHR ''.''" by auto
    with after b IH show ?thesis by (simp add: dollar_def)
  next
    case (Cons x xs)
    with d have after: "drop (Suc n) (a @ sp # b) = x # xs @ sp # b" by simp
    from b have "\<not> dollar (xs @ sp # b)" by (cases xs) (auto simp: dollar_def)
    moreover have "\<not> dollar (x # xs @ sp # b)" by (simp add: dollar_def)
    ultimately show ?thesis using after IH by simp
  qed
qed

lemma match_here_none:
  assumes "dropWhile (\<lambda>c. \<not> is_space c) s = sp # b" and "b \<noteq> []"
  shows "match_here s = None"
proof -
  let ?a = "takeWhile (\<lambda>c. \<not> is_space c) s"
  have s: "s = ?a @ sp # b" using assms(1) takeWhile_dropWhile_id [of "\<lambda>c. \<not> is_space c" s] by simp
  have a: "\<forall>c\<in>set ?a. \<not> is_space c" by (auto dest: set_takeWhileD)
  have sp: "is_space sp" using hd_dropWhile [of "\<lambda>c. \<not> is_space c" s] assms(1) by auto
  from try_lengths_none [OF a sp assms(2), of "length ?a"] s
  show ?thesis by (simp add: match_here_def)
qed

lemma match_here_full:
  assumes "rest \<noteq> []" and "\<forall>c\<in>set rest. \<not> is_space c"
  shows "match_here rest = Some rest"
proof -
  from assms(2) have t: "takeWhile (\<lambda>c. \<not> is_space c) rest = rest" by (simp add: takeWhile_eq_all_conv)
  from assms(1) obtain n where n: "length rest = Suc n" by (cases rest) auto
  then show ?thesis by (simp add: match_here_def t dollar_def)
qed

lemma search_from_skip:
  "(\<And>i. i < length pre \<Longrightarrow> match_here (drop i pre @ rest) = None) \<Longrightarrow>
     search_from prev (pre @ rest) = search_from (if pre = [] then prev else Some (last pre)) rest"
proof (induction pre arbitrary: prev)
  case Nil
  show ?case by simp
next
  case (Cons c pre)
  from Cons.prems [of 0] have m: "match_here (c # pre @ rest) = None" by simp
  have "\<And>i. i < length pre \<Longrightarrow> match_here (drop i pre @ rest) = None"
    using Cons.prems [of "Suc i" for i] by simp
  from Cons.IH [OF this, of "Some c"] m show ?case by simp
qed

lemma search_from_junk:
  assumes "\<forall>c\<in>set junk. \<not> is_word c"
    and "case prev of None \<Rightarrow> True | Some p \<Rightarrow> \<not> is_word p"
  shows "\<exists>prev'. (case prev' of None \<Rightarrow> True | Some p \<Rightarrow> \<not> is_word p)
           \<and> search_from prev (junk @ rest) = search_from prev' rest"
  using assms
proof (induction junk arbitrary: prev)
  case Nil
  then show ?case by auto
next
  case (Cons c junk)
  from Cons.prems have nb: "\<not> word_boundary prev (c # junk @ rest)"
    by (auto simp: word_boundary_def split: option.splits)
  from Cons.prems have "\<forall>c\<in>set junk. \<not> is_word c"
    "case Some c of None \<Rightarrow> True | Some p \<Rightarrow> \<not> is_word p" by auto
  from Cons.IH [OF this] nb show ?case by simp
qed

lemma street_type_re_search_token:
  assumes pre: "pre = [] \<or> is_space (last pre)"
    and junk: "\<forall>c\<in>set junk. \<not> is_word c \<and> \<not> is_space c"
    and tok: "tok \<noteq> []" "is_word (hd tok)" "\<forall>c\<in>set tok. \<not> is_space c"
  shows "street_type_re_search (pre @ junk @ tok) = Some tok"
proof -
  have none: "match_here (drop i pre @ junk @ tok) = None" if i: "i < length pre" for i
  proof -
    let ?s = "drop i pre @ junk @ tok"
    from i pre have lp: "is_space (last pre)" by auto
    from i have "drop i pre \<noteq> []" "last (drop i pre) = last pre" by simp_all
    then have "last pre \<in> set (drop i pre)" by (metis last_in_set)
    with lp have "\<exists>c\<in>set ?s. is_space c" by auto
    then have "dropWhile (\<lambda>c. \<not> is_space c) ?s \<noteq> []" by (auto simp: dropWhile_eq_Nil_conv)
    then obtain sp b where d: "dropWhile (\<lambda>c. \<not> is_space c) ?s = sp # b"
      by (cases "dropWhile (\<lambda>c. \<not> is_space c) ?s") auto
    have sp: "is_space sp" using hd_dropWhile [of "\<lambda>c. \<not> is_space c" ?s] d by auto
    have "b \<noteq> []"
    proof
      assume "b = []"
      with d have "?s = takeWhile (\<lambda>c. \<not> is_space c) ?s @ [sp]"
        using takeWhile_dropWhile_id [of "\<lambda>c. \<not> is_space c" ?s] by simp
      then have "last ?s = sp" by (metis last_snoc)
      moreover from tok(1) have "last ?s = last tok" by simp
      moreover from tok(1,3) have "\<not> is_space (last tok)" by (auto intro: last_in_set)
      ultimately show False using sp by simp
    qed
    with d show ?thesis by (rule match_here_none)
  qed
  have p0: "case (if pre = [] then None else Some (last pre)) of None \<Rightarrow> True | Some p \<Rightarrow> \<not> is_word p"
    using pre by (auto dest: space_not_word)
  from junk have j: "\<forall>c\<in>set junk. \<not> is_word c" by simp
  from search_from_junk [OF j p0, of tok] obtain prev' where
    prev': "case prev' of None \<Rightarrow> True | Some p \<Rightarrow> \<not> is_word p"
    and sj: "search_from (if pre = [] then None else Some (last pre)) (junk @ tok) = search_from prev' tok"
    by blast
  from tok obtain t ts where t: "tok = t # ts" by (cases tok) auto
  with tok(2) prev' have wb: "word_boundary prev' tok"
    by (auto simp: word_boundary_def split: option.splits)
  from match_here_full [OF tok(1,3)] wb t have "search_from prev' tok = Some tok" by auto
  with sj search_from_skip [of pre "junk @ tok" None, OF none]
  show ?thesis by (simp add: street_type_re_search_def)
qed


lemma try_lengths_nonempty: "try_lengths n (c # cs) = Some tok \<Longrightarrow> tok \<noteq> []"
  by (induction n) (auto simp: Let_def split: if_splits)

lemma match_here_nonempty: "match_here (c # cs) = Some tok \<Longrightarrow> tok \<noteq> []"
  unfolding match_here_def by (rule try_lengths_nonempty)

lemma search_from_nonempty: "search_from prev s = Some tok \<Longrightarrow> tok \<noteq> []"
proof (induction s arbitrary: prev)
  case Nil
  then show ?case by simp
next
  case (Cons c cs)
  show ?case
  proof (cases "word_boundary prev (c # cs) \<and> match_here (c # cs) \<noteq> None")
    case True
    with Cons.prems have "match_here (c # cs) = Some tok" by simp
    then show ?thesis by (rule match_here_nonempty)
  next
    case False
    with Cons.prems have "search_from (Some c) cs = Some tok" by auto
    then show ?thesis by (rule Cons.IH)
  qed
qed

section \<open>Replacing occurrences\<close>

lemma replace_scan_absent: "\<not> sublist old p \<Longrightarrow> replace_scan old new p = p"
proof (induction p)
  case Nil
  show ?case by simp
next
  case (Cons c cs)
  from Cons.prems have "\<not> prefix old (c # cs)" "\<not> sublist old cs"
    by (auto simp: sublist_Cons_right)
  with Cons.IH show ?case by simp
qed

lemma take_within: "n \<le> length xs \<Longrightarrow> take n (xs @ ys) = take n xs"
  by simp

lemma sublist_extend: "sublist xs ys \<Longrightarrow> sublist xs (ys @ zs)"
  unfolding sublist_def by (metis append.assoc)

lemma prefix_before_occurrence:
  assumes "old \<noteq> []" and "prefix old (c # p @ old @ rest)"
  shows "sublist old ((c # p) @ butlast old)"
proof -
  from assms(1) have o: "old = butlast old @ [last old]" by simp
  have split: "c # p @ old @ rest = ((c # p) @ butlast old) @ (last old # rest)"
    by (subst o) simp
  from assms(1) have len: "length old \<le> length ((c # p) @ butlast old)" by simp
  from assms(2) have "old = take (length old) (c # p @ old @ rest)"
    by (metis append_eq_conv_conj prefixE)
  also have "\<dots> = take (length old) ((c # p) @ butlast old)"
    unfolding split using len by (rule take_within)
  finally have "prefix old ((c # p) @ butlast old)" by (metis take_is_prefix)
  then show ?thesis by (rule prefix_imp_sublist)
qed

lemma replace_scan_first:
  assumes "old \<noteq> []"
  shows "\<not> sublist old (p @ butlast old) \<Longrightarrow>
           replace_scan old new (p @ old @ rest) = p @ new @ replace_scan old new rest"
proof (induction p)
  case Nil
  from assms obtain t ts where t: "old = t # ts" by (cases old) auto
  show ?case by (simp add: t)
next
  case (Cons c p)
  from Cons.prems prefix_before_occurrence [OF assms, of c p rest]
  have np: "\<not> prefix old (c # p @ old @ rest)" by blast
  from Cons.prems have "\<not> sublist old (p @ butlast old)"
    by (auto simp: sublist_Cons_right)
  from Cons.IH [OF this] np show ?case by simp
qed

lemma replace_scan_pieces:
  "old \<noteq> [] \<Longrightarrow> ps \<noteq> [] \<Longrightarrow> \<forall>p\<in>set (butlast ps). \<not> sublist old (p @ butlast old) \<Longrightarrow>
     \<not> sublist old (last ps) \<Longrightarrow>
     replace_scan old new (str_join old ps) = str_join new ps"
proof (induction old ps rule: str_join.induct)
  case (1 sep)
  then show ?case by simp
next
  case (2 sep p)
  then show ?case by (simp add: replace_scan_absent)
next
  case (3 sep p q ps)
  then have a: "\<not> sublist sep (p @ butlast sep)"
    and b: "\<forall>p\<in>set (butlast (q # ps)). \<not> sublist sep (p @ butlast sep)"
    and c: "\<not> sublist sep (last (q # ps))" by auto
  from replace_scan_first [OF "3.prems"(1) a, of new "str_join sep (q # ps)"]
    "3.IH" [OF "3.prems"(1) _ b c]
  show ?case by simp
qed

lemma leftmost_occurrence:
  assumes "old \<noteq> []"
  shows "sublist old s \<Longrightarrow> \<exists>a b. s = a @ old @ b \<and> \<not> sublist old (a @ butlast old)"
proof (induction s)
  case Nil
  with assms show ?case by simp
next
  case (Cons c cs)
  show ?case
  proof (cases "prefix old (c # cs)")
    case True
    then obtain b where "c # cs = [] @ old @ b" by (auto elim: prefixE)
    moreover have "\<not> sublist old ([] @ butlast old)"
    proof
      assume "sublist old ([] @ butlast old)"
      then have "sublist old (butlast old)" by simp
      then have "length old \<le> length (butlast old)" by (rule sublist_length_le)
      moreover have "length (butlast old) = length old - 1" by (rule length_butlast)
      moreover from assms have "0 < length old" by (rule length_greater_0_conv [THEN iffD2])
      ultimately show False by arith
    qed
    ultimately show ?thesis by blast
  next
    case False
    with Cons.prems have "sublist old cs" by (simp add: sublist_Cons_right)
    from Cons.IH [OF this] obtain a b where
      ab: "cs = a @ old @ b" "\<not> sublist old (a @ butlast old)" by blast
    have "\<not> prefix old (c # a @ butlast old)"
    proof
      assume p: "prefix old (c # a @ butlast old)"
      from assms have "old = butlast old @ [last old]" by simp
      then have "c # cs = (c # a @ butlast old) @ (last old # b)"
        using ab(1) by (metis append.assoc append_Cons append_Nil)
      then have "prefix (c # a @ butlast old) (c # cs)" by (metis prefixI)
      with p have "prefix old (c # cs)" by (metis prefix_order.order_trans)
      with False show False by simp
    qed
    with ab(2) have "\<not> sublist old ((c # a) @ butlast old)"
      by (simp add: sublist_Cons_right)
    moreover from ab(1) have "c # cs = (c # a) @ old @ b" by simp
    ultimately show ?thesis by blast
  qed
qed

lemma pieces_exist:
  assumes "old \<noteq> []"
  shows "\<exists>ps. ps \<noteq> [] \<and> s = str_join old ps
            \<and> (\<forall>p\<in>set (butlast ps). \<not> sublist old (p @ butlast old))
            \<and> \<not> sublist old (last ps)"
proof (induction "length s" arbitrary: s rule: less_induct)
  case less
  show ?case
  proof (cases "sublist old s")
    case False
    then have "[s] \<noteq> [] \<and> s = str_join old [s]
            \<and> (\<forall>p\<in>set (butlast [s]). \<not> sublist old (p @ butlast old))
            \<and> \<not> sublist old (last [s])" by simp
    then show ?thesis by blast
  next
    case True
    from leftmost_occurrence [OF assms True] obtain a b where
      ab: "s = a @ old @ b" "\<not> sublist old (a @ butlast old)" by blast
    with assms have "length b < length s" by simp
    from less [OF this] obtain qs where
      qs: "qs \<noteq> []" "b = str_join old qs"
        "\<forall>p\<in>set (butlast qs). \<not> sublist old (p @ butlast old)"
        "\<not> sublist old (last qs)" by blast
    from qs(1) obtain q qs' where q: "qs = q # qs'" by (cases qs) auto
    from ab qs have "a # qs \<noteq> [] \<and> s = str_join old (a # qs)
            \<and> (\<forall>p\<in>set (butlast (a # qs)). \<not> sublist old (p @ butlast old))
            \<and> \<not> sublist old (last (a # qs))" by (simp add: q)
    then show ?thesis by blast
  qed
qed

lemma iloc0_filter:
  "iloc0 (map f (filter P xs)) = (case find P xs of None \<Rightarrow> Inl IndexError | Some r \<Rightarrow> Inr (f r))"
  by (induction xs) (auto simp: iloc0_def)

lemma column_find: "t \<in> set (map g xs) \<longleftrightarrow> find (\<lambda>r. g r = t) xs \<noteq> None"
  by (auto simp: find_None_iff)

lemma update_name_found:
  assumes "street_type_re_search s = Some tok"
  shows "update_name (Str s) CR =
     Inr (Str (case find (\<lambda>r. CommonName r = str_upper tok) CR of
            Some r \<Rightarrow> str_upper (str_replace s (str_upper tok) (FullName r))
          | None \<Rightarrow>
              (case find (\<lambda>r. USPSName r = str_upper tok) CR of
                 Some r \<Rightarrow> str_upper (str_replace s (str_upper tok) (FullName r))
               | None \<Rightarrow> str_upper s)))"
  unfolding update_name_def column_find iloc0_filter
  using assms by (simp split: option.splits)

lemma update_name_unicode: "update_name (Unicode u) CR = Inl TypeError"
  by (simp add: update_name_def split: option.splits)

section \<open>Street names\<close>

text \<open>
  The expression does not take the whole trailing token when that token starts with a
  character that is neither a letter, a digit nor an underscore: a match has to start at
  a word boundary. In \<open>MAIN #ST\<close> the trailing token \<open>#ST\<close> is in neither
  column of the table, yet the value is rewritten, because the match is \<open>ST\<close>.
\<close>

theorem street_token_counterexample:
  "spec_trailing_token (str_upper ''Main #St'') = ''#ST''
   \<and> ''#ST'' \<notin> set (map CommonName [\<lparr>FullName = ''STREET'', CommonName = ''ST'', USPSName = ''ST''\<rparr>])
   \<and> ''#ST'' \<notin> set (map USPSName [\<lparr>FullName = ''STREET'', CommonName = ''ST'', USPSName = ''ST''\<rparr>])
   \<and> handle_tags str_upper (Str ''addr:street'') (Str ''Main #St'')
         [\<lparr>FullName = ''STREET'', CommonName = ''ST'', USPSName = ''ST''\<rparr>] [] =
       Inr \<lparr>kvt_key = Str ''addr'', kvt_value = Str ''MAIN #STREET'', kvt_type = Str ''street''\<rparr>"
  by code_simp

text \<open>
  C5, for byte strings. For a tag of type \<open>street\<close> whose value is a byte string and,
  uppercased, ends in a whitespace-free token, the token looked up is that trailing
  token from its first word character on (the whole token when it starts with a letter,
  a digit or an underscore). It is looked up uppercased in the \<open>CommonName\<close> column
  first and in the \<open>USPSName\<close> column only when the first lookup misses; on a hit the
  \<open>FullName\<close> of the first matching row is substituted for it in the value, and on a
  miss the value stays as uppercased. With \<open>ST\<close> mapped to \<open>STREET\<close>,
  \<open>Lincoln St\<close> gives \<open>LINCOLN STREET\<close>.
\<close>

theorem street_lookup_order:
  assumes key: "\<not> PROBLEMCHARS_search (chars k)" "chars k = ns @ '':street''"
      "CHR '':'' \<notin> set ns"
    and val: "str_upper s = pre @ junk @ tok"
    and pre: "pre = [] \<or> is_space (last pre)"
    and junk: "\<forall>c\<in>set junk. \<not> is_word c \<and> \<not> is_space c"
    and tok: "tok \<noteq> []" "is_word (hd tok)" "\<forall>c\<in>set tok. \<not> is_space c"
  shows "handle_tags uu k (Str s) CR CRC =
     Inr \<lparr>kvt_key = same_kind k ns,
          kvt_value = Str
            (case find (\<lambda>r. CommonName r = str_upper tok) CR of
               Some r \<Rightarrow> str_upper (str_replace (str_upper s) (str_upper tok) (FullName r))
             | None \<Rightarrow>
                 (case find (\<lambda>r. USPSName r = str_upper tok) CR of
                    Some r \<Rightarrow> str_upper (str_replace (str_upper s) (str_upper tok) (FullName r))
                  | None \<Rightarrow> str_upper s)),
          kvt_type = same_kind k ''street''\<rparr>"
proof -
  from street_type_re_search_token [OF pre junk tok] val
  have "street_type_re_search (str_upper s) = Some tok" by simp
  note u = update_name_found [OF this, of CR]
  from key(3) have sp: "split_colon (chars k) = (ns, ''street'')"
    unfolding key(2) using split_colon_append [of ns "''street''"] by simp
  have c: "CHR '':'' \<in> set (chars k)" unfolding key(2) by simp
  from key(1) sp c u show ?thesis
    by (cases k) (simp_all add: handle_tags_def str_upper_idem cong: option.case_cong)
qed

theorem street_lookup_order_witness:
  "handle_tags str_upper (Str ''addr:street'') (Str ''Lincoln St'')
     [\<lparr>FullName = ''STREET'', CommonName = ''ST'', USPSName = ''ST''\<rparr>] [] =
     Inr \<lparr>kvt_key = Str ''addr'', kvt_value = Str ''LINCOLN STREET'', kvt_type = Str ''street''\<rparr>
   \<and> handle_tags str_upper (Str ''addr:street'') (Str ''Lincoln St'')
     [\<lparr>FullName = ''SAINT'', CommonName = ''SNT'', USPSName = ''ST''\<rparr>,
      \<lparr>FullName = ''STREET'', CommonName = ''ST'', USPSName = ''STR''\<rparr>] [] =
     Inr \<lparr>kvt_key = Str ''addr'', kvt_value = Str ''LINCOLN STREET'', kvt_type = Str ''street''\<rparr>
   \<and> handle_tags str_upper (Str ''addr:street'') (Str ''Lincoln St'')
     [\<lparr>FullName = ''SAINT'', CommonName = ''SNT'', USPSName = ''ST''\<rparr>] [] =
     Inr \<lparr>kvt_key = Str ''addr'', kvt_value = Str ''LINCOLN SAINT'', kvt_type = Str ''street''\<rparr>
   \<and> handle_tags str_upper (Str ''addr:street'') (Str ''Lincoln (St'')
     [\<lparr>FullName = ''STREET'', CommonName = ''ST'', USPSName = ''ST''\<rparr>] [] =
     Inr \<lparr>kvt_key = Str ''addr'', kvt_value = Str ''LINCOLN (STREET'', kvt_type = Str ''street''\<rparr>"
proof -
  have k1: "\<not> PROBLEMCHARS_search (chars (Str ''addr:street''))" by code_simp
  have k2: "chars (Str ''addr:street'') = ''addr'' @ '':street''" by simp
  have k3: "CHR '':'' \<notin> set ''addr''" by simp
  have v: "str_upper ''Lincoln St'' = ''LINCOLN '' @ [] @ ''ST''" by code_simp
  have p: "''LINCOLN '' = [] \<or> is_space (last ''LINCOLN '')" by code_simp
  have j: "\<forall>c\<in>set []. \<not> is_word c \<and> \<not> is_space c" by simp
  have t1: "''ST'' \<noteq> []" by simp
  have t2: "is_word (hd ''ST'')" by code_simp
  have t3: "\<forall>c\<in>set ''ST''. \<not> is_space c" by code_simp
  note th = street_lookup_order [OF k1 k2 k3 v p j t1 t2 t3, of str_upper]
  have u: "str_upper ''ST'' = ''ST''" by code_simp
  have r1: "str_upper (str_replace ''LINCOLN ST'' ''ST'' ''STREET'') = ''LINCOLN STREET''"
    by code_simp
  have r2: "str_upper (str_replace ''LINCOLN ST'' ''ST'' ''SAINT'') = ''LINCOLN SAINT''"
    by code_simp
  have v': "str_upper ''Lincoln St'' = ''LINCOLN ST''" by code_simp
  from th [of "[\<lparr>FullName = ''STREET'', CommonName = ''ST'', USPSName = ''ST''\<rparr>]" "[]"]
  have a: "handle_tags str_upper (Str ''addr:street'') (Str ''Lincoln St'')
     [\<lparr>FullName = ''STREET'', CommonName = ''ST'', USPSName = ''ST''\<rparr>] [] =
     Inr \<lparr>kvt_key = Str ''addr'', kvt_value = Str ''LINCOLN STREET'', kvt_type = Str ''street''\<rparr>"
    by (simp add: u v' r1)
  from th [of "[\<lparr>FullName = ''SAINT'', CommonName = ''SNT'', USPSName = ''ST''\<rparr>,
      \<lparr>FullName = ''STREET'', CommonName = ''ST'', USPSName = ''STR''\<rparr>]" "[]"]
  have b: "handle_tags str_upper (Str ''addr:street'') (Str ''Lincoln St'')
     [\<lparr>FullName = ''SAINT'', CommonName = ''SNT'', USPSName = ''ST''\<rparr>,
      \<lparr>FullName = ''STREET'', CommonName = ''ST'', USPSName = ''STR''\<rparr>] [] =
     Inr \<lparr>kvt_key = Str ''addr'', kvt_value = Str ''LINCOLN STREET'', kvt_type = Str ''street''\<rparr>"
    by (simp add: u v' r1)
  from th [of "[\<lparr>FullName = ''SAINT'', CommonName = ''SNT'', USPSName = ''ST''\<rparr>]" "[]"]
  have c: "handle_tags str_upper (Str ''addr:street'') (Str ''Lincoln St'')
     [\<lparr>FullName = ''SAINT'', CommonName = ''SNT'', USPSName = ''ST''\<rparr>] [] =
     Inr \<lparr>kvt_key = Str ''addr'', kvt_value = Str ''LINCOLN SAINT'', kvt_type = Str ''street''\<rparr>"
    by (simp add: u v' r2)
  have v2: "str_upper ''Lincoln (St'' = ''LINCOLN '' @ ''('' @ ''ST''" by code_simp
  have j2: "\<forall>c\<in>set ''(''. \<not> is_word c \<and> \<not> is_space c" by code_simp
  have v2': "str_upper ''Lincoln (St'' = ''LINCOLN (ST''" by code_simp
  have r3: "str_upper (str_replace ''LINCOLN (ST'' ''ST'' ''STREET'') = ''LINCOLN (STREET''"
    by code_simp
  from street_lookup_order [OF k1 k2 k3 v2 p j2 t1 t2 t3,
      of str_upper "[\<lparr>FullName = ''STREET'', CommonName = ''ST'', USPSName = ''ST''\<rparr>]" "[]"]
  have d: "handle_tags str_upper (Str ''addr:street'') (Str ''Lincoln (St'')
     [\<lparr>FullName = ''STREET'', CommonName = ''ST'', USPSName = ''ST''\<rparr>] [] =
     Inr \<lparr>kvt_key = Str ''addr'', kvt_value = Str ''LINCOLN (STREET'', kvt_type = Str ''street''\<rparr>"
    by (simp add: u v2' r3)
  from a b c d show ?thesis by blast
qed

text \<open>
  C10. When the token matched at the end of a byte-string value is found in the table,
  every occurrence of the uppercased token in the value is replaced, not only the last
  one. Every value is a list of pieces joined by the token, the token starting nowhere
  earlier than at a joint; the result is the same pieces joined by the full name,
  uppercased. So \<open>STATE ST\<close> becomes \<open>STREETATE STREET\<close>. (For a unicode value
  \<open>str.upper\<close> raises before the table is looked at, and nothing is substituted.)
\<close>

theorem update_name_replaces_every_occurrence:
  assumes tok: "street_type_re_search s = Some tok" "T = str_upper tok"
    and hit: "find (\<lambda>r. CommonName r = T) CR = Some r
              \<or> find (\<lambda>r. CommonName r = T) CR = None \<and> find (\<lambda>r. USPSName r = T) CR = Some r"
  shows "(\<exists>ps. ps \<noteq> [] \<and> s = str_join T ps
            \<and> (\<forall>p\<in>set (butlast ps). \<not> sublist T (p @ butlast T))
            \<and> \<not> sublist T (last ps))
       \<and> (\<forall>ps. ps \<noteq> [] \<and> s = str_join T ps
            \<and> (\<forall>p\<in>set (butlast ps). \<not> sublist T (p @ butlast T))
            \<and> \<not> sublist T (last ps)
            \<longrightarrow> update_name (Str s) CR = Inr (Str (str_upper (str_join (FullName r) ps))))"
proof -
  from search_from_nonempty tok have T: "T \<noteq> []"
    by (auto simp: street_type_re_search_def str_upper_def)
  have "update_name (Str s) CR = Inr (Str (str_upper (str_join (FullName r) ps)))"
    if ps: "ps \<noteq> []" "s = str_join T ps"
      "\<forall>p\<in>set (butlast ps). \<not> sublist T (p @ butlast T)" "\<not> sublist T (last ps)" for ps
  proof -
    from replace_scan_pieces [OF T ps(1,3,4), of "FullName r"] T ps(2)
    have "str_replace s T (FullName r) = str_join (FullName r) ps"
      by (simp add: str_replace_def)
    with update_name_found [OF tok(1), of CR] hit tok(2) show ?thesis by auto
  qed
  with pieces_exist [OF T, of s] show ?thesis by blast
qed

theorem update_name_replaces_every_occurrence_witness:
  "update_name (Str ''STATE ST'')
     [\<lparr>FullName = ''STREET'', CommonName = ''ST'', USPSName = ''ST''\<rparr>]
     = Inr (Str ''STREETATE STREET'')"
proof -
  let ?r = "\<lparr>FullName = ''STREET'', CommonName = ''ST'', USPSName = ''ST''\<rparr>"
  let ?ps = "[[], ''ATE '', []]"
  have h1: "street_type_re_search ''STATE ST'' = Some ''ST''" by code_simp
  have h2: "''ST'' = str_upper ''ST''" by code_simp
  have h3: "find (\<lambda>r. CommonName r = ''ST'') [?r] = Some ?r
              \<or> find (\<lambda>r. CommonName r = ''ST'') [?r] = None \<and> find (\<lambda>r. USPSName r = ''ST'') [?r] = Some ?r"
    by simp
  have h4: "?ps \<noteq> [] \<and> ''STATE ST'' = str_join ''ST'' ?ps" by simp
  have h5: "\<forall>p\<in>set (butlast ?ps). \<not> sublist ''ST'' (p @ butlast ''ST'')"
    by code_simp
  have h6: "\<not> sublist ''ST'' (last ?ps)" by simp
  have u: "str_upper (str_join (FullName ?r) ?ps) = ''STREETATE STREET''"
    by code_simp
  from update_name_replaces_every_occurrence [OF h1 h2 h3] h4 h5 h6
  have "update_name (Str ''STATE ST'') [?r] = Inr (Str (str_upper (str_join (FullName ?r) ?ps)))"
    by blast
  with u show ?thesis by simp
qed

section \<open>Further facts on tags and node references\<close>

text \<open>
  The rejected path raises for every key with a disallowed character. On the other
  path, for a byte-string value, the part before the first colon always becomes the key
  and the rest the type.
\<close>

lemma handle_tags_rejected:
  "PROBLEMCHARS_search (chars k) \<Longrightarrow>
     handle_tags uu k v CR CRC = Inl (UnboundLocalError ''type_name'')"
  by (simp add: handle_tags_def)

lemma update_name_total: "\<exists>t. update_name (Str s) CR = Inr (Str t)"
  unfolding update_name_def column_find iloc0_filter
  by (simp split: option.splits)

lemma update_city_name_upper_total: "\<exists>t. update_city_name (Str (str_upper s)) CRC = Inr (Str t)"
  unfolding update_city_name_def column_find iloc0_filter
  by (simp add: str_upper_idem split: option.splits)

lemma handle_tags_parts:
  assumes "\<not> PROBLEMCHARS_search (chars k)" and "chars k = a @ CHR '':'' # b"
    and "CHR '':'' \<notin> set a"
  shows "\<exists>r. handle_tags uu k (Str s) CR CRC = Inr r
           \<and> kvt_key r = same_kind k a \<and> kvt_type r = same_kind k b"
proof -
  from assms(3) have sp: "split_colon (chars k) = (a, b)"
    unfolding assms(2) by (rule split_colon_append)
  have c: "CHR '':'' \<in> set (chars k)" unfolding assms(2) by simp
  from update_name_total obtain s1 where
    s1: "update_name (Str (str_upper s)) CR = Inr (Str s1)" by blast
  from update_city_name_upper_total obtain s2 where
    s2: "update_city_name (Str (str_upper s)) CRC = Inr (Str s2)" by blast
  from assms(1) sp c s1 s2 show ?thesis by (cases k) (simp_all add: handle_tags_def Let_def)
qed

text \<open>
  A unicode value under a key of type \<open>street\<close> or \<open>city\<close> always ends in
  \<open>TypeError\<close>.
\<close>

lemma handle_tags_unicode_raises:
  assumes "\<not> PROBLEMCHARS_search (chars k)" and "chars k = a @ CHR '':'' # b"
    and "CHR '':'' \<notin> set a" and "b = ''street'' \<or> b = ''city''"
  shows "handle_tags uu k (Unicode u) CR CRC = Inl TypeError"
proof -
  from assms(3) have sp: "split_colon (chars k) = (a, b)"
    unfolding assms(2) by (rule split_colon_append)
  have c: "CHR '':'' \<in> set (chars k)" unfolding assms(2) by simp
  from assms(1,4) sp c show ?thesis
    by (cases k)
      (auto simp: handle_tags_def Let_def update_name_unicode update_city_name_unicode)
qed

text \<open>With no entry for \<open>Vegas\<close>, the byte string \<open>Vegas\<close> gives \<open>VEGAS\<close>.\<close>

lemma city_miss_vegas:
  "handle_tags uu (Str ''addr:city'') (Str ''Vegas'') CR
     [\<lparr>OriginalName = ''LAS VEGAS'', NewName = ''LAS VEGAS''\<rparr>] =
   Inr \<lparr>kvt_key = Str ''addr'', kvt_value = Str ''VEGAS'', kvt_type = Str ''city''\<rparr>"
  by code_simp

text \<open>
  A way without a \<open>tag\<close> element keeps its node references: one record per \<open>nd\<close>
  element, in document order, numbered from 0.
\<close>

lemma way_without_tags_node_refs:
  assumes "iter e ''tag'' = []" and "shape_element uu e CR CRC = Inr (Some (WayOut p wns ts))"
  shows "map wn_position wns = map int [0..<length (iter e ''nd'')]
     \<and> map wn_node_id wns = map (\<lambda>el. py_upper uu (the (attrib el ''ref''))) (iter e ''nd'')"
proof -
  from assms obtain i where sn: "shape_nds uu i (iter e ''nd'') 0 [] = Inr wns"
    by (auto simp: shape_element_def Let_def split: if_splits sum.splits prod.splits)
  from shape_nds_Inr [OF sn] have
    w: "wns = map (\<lambda>(k, el). \<lparr>wn_id = i, wn_node_id = py_upper uu (the (attrib el ''ref'')),
                                 wn_position = int k\<rparr>) (enumerate 0 (iter e ''nd''))"
    by simp
  have "map wn_position wns = map (int \<circ> fst) (enumerate 0 (iter e ''nd''))"
    unfolding w by (simp add: split_def comp_def)
  also have "\<dots> = map int (map fst (enumerate 0 (iter e ''nd'')))" by (simp only: map_map)
  finally have "map wn_position wns = map int [0..<length (iter e ''nd'')]" by simp
  moreover have "map wn_node_id wns
       = map ((\<lambda>el. py_upper uu (the (attrib el ''ref''))) \<circ> snd) (enumerate 0 (iter e ''nd''))"
    unfolding w by (simp add: split_def comp_def)
  then have "map wn_node_id wns
       = map (\<lambda>el. py_upper uu (the (attrib el ''ref''))) (map snd (enumerate 0 (iter e ''nd'')))"
    by (simp only: map_map)
  ultimately show ?thesis by simp
qed

end
